theory Spec2Isabelle
  imports Main "HOL-Library.Word"
begin

section \<open>Data model (models.ts)\<close>

text \<open>
  Numbers of the source are double-precision floats. The engine only subtracts, adds 1
  and compares, and on integers of magnitude up to \<open>2^53 - 1\<close> (the safe integers)
  these operations are exact, so such numbers are modelled as integers (\<open>int\<close>).
  Statements about the values the engine stores are made for runs with valid points
  (\<open>valid_op\<close> below), where every number the code computes is a safe integer.
  A step of the source whose result is not a number (\<open>NaN\<close>) is an error branch of
  the model; no world of a run takes it (\<open>reachable_total\<close>).

  A string is the list of its UTF-16 code units, which is what the language's string
  type holds.
\<close>

type_synonym jsstring = "16 word list"

definition str :: "string \<Rightarrow> jsstring" where
  "str s = map (\<lambda>c. of_nat (of_char c)) s"

text \<open>\<open>GameType = 301 | 501\<close>: a union of two numeric literals.\<close>

datatype GameType = G301 | G501

fun score :: "GameType \<Rightarrow> int" where
  "score G301 = 301"
| "score G501 = 501"

record Player =
  player_id :: int
  name :: jsstring
  legsWon :: int

record Turn =
  turn_id :: int
  playerId :: int
  points :: int
  runningScore :: int

record LegState =
  legNumber :: int
  startingScore :: GameType
  turns :: "Turn list"
  leg_isFinished :: bool
  currentPlayerIndex :: int

record SetState =
  players :: "Player list"
  gameType :: GameType
  maxLegs :: int
  currentLeg :: "LegState option"
  set_isFinished :: bool
  winnerPlayerId :: "int option"

text \<open>
  The module keeps one mutable variable, \<open>nextTurnId\<close>, beside the set object that
  the operations mutate. A \<open>World\<close> is the pair of both.
\<close>

record World =
  nextTurnId :: int
  setState :: SetState

text \<open>The value returned by \<open>addTurn\<close>: \<open>{ legFinished, winner }\<close>.\<close>

record TurnResult =
  legFinished :: bool
  winner :: "Player option"

datatype error =
  TypeError   \<comment> \<open>a property is read from \<open>undefined\<close>\<close>
| NotANumber  \<comment> \<open>an arithmetic result is \<open>NaN\<close>, outside the integers\<close>

section \<open>Runtime library\<close>

text \<open>
  Array indexing \<open>xs[i]\<close>: \<open>undefined\<close> (here \<open>None\<close>) outside the array.
\<close>

definition at_index :: "'a list \<Rightarrow> int \<Rightarrow> 'a option" where
  "at_index xs i = (if 0 \<le> i \<and> i < int (length xs) then Some (xs ! nat i) else None)"

text \<open>\<open>Array.prototype.findIndex\<close>: the first index that satisfies the test, or -1.\<close>

fun findIndex :: "('a \<Rightarrow> bool) \<Rightarrow> 'a list \<Rightarrow> int" where
  "findIndex P [] = -1"
| "findIndex P (x # xs) =
     (if P x then 0 else (let r = findIndex P xs in if r < 0 then -1 else r + 1))"

text \<open>
  \<open>String.prototype.trim\<close> removes the white space and line terminator code units of
  the language definition from both ends.
\<close>

definition isWhiteSpace :: "16 word \<Rightarrow> bool" where
  "isWhiteSpace c \<longleftrightarrow>
     c \<in> {0x9, 0xA, 0xB, 0xC, 0xD, 0x20, 0xA0, 0x1680,
          0x2000, 0x2001, 0x2002, 0x2003, 0x2004, 0x2005, 0x2006, 0x2007, 0x2008, 0x2009,
          0x200A, 0x2028, 0x2029, 0x202F, 0x205F, 0x3000, 0xFEFF}"

definition trim :: "jsstring \<Rightarrow> jsstring" where
  "trim s = rev (dropWhile isWhiteSpace (rev (dropWhile isWhiteSpace s)))"

text \<open>\<open>a || b\<close> on strings: the empty string is the only falsy string.\<close>

definition or_else :: "jsstring \<Rightarrow> jsstring \<Rightarrow> jsstring" where
  "or_else a b = (if a = [] then b else a)"

section \<open>The engine (state.ts)\<close>

definition createEmptySet :: SetState where
  "createEmptySet =
     \<lparr>players = [], gameType = G501, maxLegs = 5, currentLeg = None,
      set_isFinished = False, winnerPlayerId = None\<rparr>"

text \<open>
  \<open>createNewLeg\<close> returns the new leg and assigns 1 to \<open>nextTurnId\<close>; the second
  component is the value written to the module variable.
\<close>

definition createNewLeg :: "SetState \<Rightarrow> int \<Rightarrow> LegState \<times> int" where
  "createNewLeg s n =
     (\<lparr>legNumber = n, startingScore = gameType s, turns = [],
       leg_isFinished = False, currentPlayerIndex = 0\<rparr>, 1)"

definition startNewSet :: "jsstring \<Rightarrow> jsstring \<Rightarrow> GameType \<Rightarrow> int \<Rightarrow> World" where
  "startNewSet player1Name player2Name gt ml =
     (let ps = [\<lparr>player_id = 1, name = or_else (trim player1Name) (str ''Player 1''), legsWon = 0\<rparr>,
                \<lparr>player_id = 2, name = or_else (trim player2Name) (str ''Player 2''), legsWon = 0\<rparr>];
          s = \<lparr>players = ps, gameType = gt, maxLegs = ml, currentLeg = None,
               set_isFinished = False, winnerPlayerId = None\<rparr>;
          (leg, nid) = createNewLeg s 1
      in \<lparr>nextTurnId = nid, setState = s\<lparr>currentLeg := Some leg\<rparr>\<rparr>)"

text \<open>The loop of \<open>getRemainingScoreForPlayer\<close>, with \<open>remaining\<close> as accumulator.\<close>

fun remaining_loop :: "int \<Rightarrow> Turn list \<Rightarrow> int \<Rightarrow> int" where
  "remaining_loop pid [] remaining = remaining"
| "remaining_loop pid (t # ts) remaining =
     remaining_loop pid ts (if playerId t = pid then remaining - points t else remaining)"

definition getRemainingScoreForPlayer :: "LegState \<Rightarrow> int \<Rightarrow> int" where
  "getRemainingScoreForPlayer leg pid = remaining_loop pid (turns leg) (score (startingScore leg))"

text \<open>
  \<open>updateSetWinner\<close>: the loop over the players stops (\<open>break\<close>) at the first
  player with enough legs.
\<close>

fun winner_loop :: "int \<Rightarrow> Player list \<Rightarrow> SetState \<Rightarrow> SetState" where
  "winner_loop neededLegs [] s = s"
| "winner_loop neededLegs (p # ps) s =
     (if legsWon p \<ge> neededLegs
      then s\<lparr>set_isFinished := True, winnerPlayerId := Some (player_id p)\<rparr>
      else winner_loop neededLegs ps s)"

definition updateSetWinner :: "SetState \<Rightarrow> SetState" where
  "updateSetWinner s = winner_loop (maxLegs s div 2 + 1) (players s) s"

definition no_turn :: TurnResult where
  "no_turn = \<lparr>legFinished = False, winner = None\<rparr>"

text \<open>
  \<open>addTurn\<close>. Reading \<open>currentPlayer.id\<close> throws when \<open>currentPlayerIndex\<close> is
  not an index of \<open>players\<close>. The winner is the player object of the set itself, so
  the returned winner carries the incremented \<open>legsWon\<close>; the players of a set
  are distinct objects, so the increment changes one entry of the list. Where the remainder
  \<open>%\<close> is taken, the index is one of the array and so both operands are positive.
\<close>

definition addTurn :: "World \<Rightarrow> int \<Rightarrow> error + (World \<times> TurnResult)" where
  "addTurn w pts =
     (let s = setState w in
      case currentLeg s of
        None \<Rightarrow> Inr (w, no_turn)
      | Some leg \<Rightarrow>
          if set_isFinished s \<or> leg_isFinished leg then Inr (w, no_turn)
          else
            (case at_index (players s) (currentPlayerIndex leg) of
               None \<Rightarrow> Inl TypeError
             | Some currentPlayer \<Rightarrow>
                 let remainingBefore = getRemainingScoreForPlayer leg (player_id currentPlayer);
                     remainingAfter = remainingBefore - pts
                 in if remainingAfter < 0 then Inr (w, no_turn)
                    else
                      let turn = \<lparr>turn_id = nextTurnId w, playerId = player_id currentPlayer,
                                  points = pts, runningScore = remainingAfter\<rparr>;
                          nid = nextTurnId w + 1;
                          leg1 = leg\<lparr>turns := turns leg @ [turn]\<rparr>
                      in if remainingAfter = 0
                         then
                           let leg2 = leg1\<lparr>leg_isFinished := True\<rparr>;
                               won = currentPlayer\<lparr>legsWon := legsWon currentPlayer + 1\<rparr>;
                               s1 = s\<lparr>players := (players s)[nat (currentPlayerIndex leg) := won],
                                      currentLeg := Some leg2\<rparr>
                           in Inr (\<lparr>nextTurnId = nid, setState = updateSetWinner s1\<rparr>,
                                   \<lparr>legFinished = True, winner = Some won\<rparr>)
                         else
                           let leg2 = leg1\<lparr>currentPlayerIndex :=
                                        (currentPlayerIndex leg + 1) mod int (length (players s))\<rparr>
                           in Inr (\<lparr>nextTurnId = nid, setState = s\<lparr>currentLeg := Some leg2\<rparr>\<rparr>,
                                   no_turn)))"

text \<open>
  \<open>removeLastTurn\<close>. \<open>remainingScores\<close> is a map from player ids to scores,
  filled by the first loop. The second loop rewrites \<open>runningScore\<close> of every turn left;
  a turn whose \<open>playerId\<close> has no entry reads \<open>undefined\<close> and computes \<open>NaN\<close>,
  which the model reports as \<open>NotANumber\<close> (the source stores it and goes on).
\<close>

fun init_scores :: "Player list \<Rightarrow> int \<Rightarrow> (int \<rightharpoonup> int) \<Rightarrow> (int \<rightharpoonup> int)" where
  "init_scores [] st m = m"
| "init_scores (p # ps) st m = init_scores ps st (m(player_id p \<mapsto> st))"

fun replay :: "(int \<rightharpoonup> int) \<Rightarrow> Turn list \<Rightarrow> error + Turn list" where
  "replay remainingScores [] = Inr []"
| "replay remainingScores (t # ts) =
     (case remainingScores (playerId t) of
        None \<Rightarrow> Inl NotANumber
      | Some currentRemaining \<Rightarrow>
          (let updated = currentRemaining - points t in
           case replay (remainingScores(playerId t \<mapsto> updated)) ts of
             Inl e \<Rightarrow> Inl e
           | Inr ts' \<Rightarrow> Inr (t\<lparr>runningScore := updated\<rparr> # ts')))"

definition removeLastTurn :: "World \<Rightarrow> error + World" where
  "removeLastTurn w =
     (let s = setState w in
      case currentLeg s of
        None \<Rightarrow> Inr w
      | Some leg \<Rightarrow>
          if turns leg = [] \<or> leg_isFinished leg then Inr w
          else
            (let popped = butlast (turns leg);
                 remainingScores = init_scores (players s) (score (startingScore leg)) Map.empty
             in case replay remainingScores popped of
                  Inl e \<Rightarrow> Inl e
                | Inr ts \<Rightarrow>
                    let idx = (if ts = [] then 0
                               else (findIndex (\<lambda>p. player_id p = playerId (last ts)) (players s) + 1)
                                    mod int (length (players s)))
                    in Inr \<lparr>nextTurnId = 1,
                            setState = s\<lparr>currentLeg :=
                              Some (leg\<lparr>turns := ts, currentPlayerIndex := idx\<rparr>)\<rparr>\<rparr>))"

definition canStartNextLeg :: "SetState \<Rightarrow> bool" where
  "canStartNextLeg s =
     (case currentLeg s of
        None \<Rightarrow> False
      | Some leg \<Rightarrow> if \<not> leg_isFinished leg \<or> set_isFinished s then False else True)"

definition startNextLeg :: "World \<Rightarrow> World" where
  "startNextLeg w =
     (let s = setState w in
      case currentLeg s of
        None \<Rightarrow> w
      | Some leg \<Rightarrow>
          if \<not> leg_isFinished leg \<or> set_isFinished s then w
          else
            let nextLegNumber = legNumber leg + 1 in
            if nextLegNumber > maxLegs s then w
            else
              let (newLeg, nid) = createNewLeg s nextLegNumber
              in \<lparr>nextTurnId = nid, setState = s\<lparr>currentLeg := Some newLeg\<rparr>\<rparr>)"

definition resetSet :: "SetState \<Rightarrow> SetState" where
  "resetSet s =
     s\<lparr>players := map (\<lambda>p. p\<lparr>legsWon := 0\<rparr>) (players s),
       set_isFinished := False, winnerPlayerId := None, currentLeg := None\<rparr>"

text \<open>The placeholder is the one-character string of the en dash, U+2013.\<close>

definition placeholder :: jsstring where
  "placeholder = [0x2013]"

text \<open>
  Reading \<open>player.name\<close> throws on \<open>undefined\<close>; the source reads it only after
  the test \<open>player ? ... : ...\<close>, and an object is always truthy.
\<close>

definition truthy :: "Player option \<Rightarrow> bool" where
  "truthy player = (case player of None \<Rightarrow> False | Some _ \<Rightarrow> True)"

definition read_name :: "Player option \<Rightarrow> error + jsstring" where
  "read_name player = (case player of None \<Rightarrow> Inl TypeError | Some p \<Rightarrow> Inr (name p))"

definition getCurrentPlayerName :: "SetState \<Rightarrow> error + jsstring" where
  "getCurrentPlayerName s =
     (case currentLeg s of
        None \<Rightarrow> Inr placeholder
      | Some leg \<Rightarrow>
          (let player = at_index (players s) (currentPlayerIndex leg)
           in if truthy player then read_name player else Inr placeholder))"

section \<open>Runs of the engine\<close>

text \<open>
  The operations a caller can invoke on the set of a world. \<open>CreateNewLeg\<close> is the
  exported \<open>createNewLeg\<close> called on its own: the leg it returns is the caller's, and
  only the module variable changes. An operation that throws leaves no successor state.
\<close>

datatype op = AddTurn int | RemoveLastTurn | StartNextLeg | ResetSet | CreateNewLeg int

fun apply_op :: "World \<Rightarrow> op \<Rightarrow> error + World" where
  "apply_op w (AddTurn pts) = (case addTurn w pts of Inl e \<Rightarrow> Inl e | Inr (w', r) \<Rightarrow> Inr w')"
| "apply_op w RemoveLastTurn = removeLastTurn w"
| "apply_op w StartNextLeg = Inr (startNextLeg w)"
| "apply_op w ResetSet = Inr (w\<lparr>setState := resetSet (setState w)\<rparr>)"
| "apply_op w (CreateNewLeg n) = Inr (w\<lparr>nextTurnId := snd (createNewLeg (setState w) n)\<rparr>)"

fun run :: "World \<Rightarrow> op list \<Rightarrow> error + World" where
  "run w [] = Inr w"
| "run w (x # xs) = (case apply_op w x of Inl e \<Rightarrow> Inl e | Inr w' \<Rightarrow> run w' xs)"

text \<open>
  The reachable worlds: a match begins with \<open>startNewSet\<close>, or with the empty set
  of \<open>createEmptySet\<close> while the module variable still has its initial value 1.
\<close>

inductive reachable :: "World \<Rightarrow> bool" where
  start: "reachable (startNewSet n1 n2 gt ml)"
| empty: "reachable \<lparr>nextTurnId = 1, setState = createEmptySet\<rparr>"
| step: "reachable w \<Longrightarrow> apply_op w x = Inr w' \<Longrightarrow> reachable w'"

text \<open>The sum of the points a player has thrown in a list of turns.\<close>

definition points_of :: "int \<Rightarrow> Turn list \<Rightarrow> int" where
  "points_of pid ts = sum_list (map points (filter (\<lambda>t. playerId t = pid) ts))"

text \<open>
  Valid points: the score of a turn is a non-negative safe integer. The presentation
  layer validates the points it passes; the engine itself checks only that the remaining
  score does not become negative.
\<close>

definition MAX_SAFE_INTEGER :: int where
  "MAX_SAFE_INTEGER = 2 ^ 53 - 1"

fun valid_op :: "op \<Rightarrow> bool" where
  "valid_op (AddTurn pts) = (0 \<le> pts \<and> pts \<le> MAX_SAFE_INTEGER)"
| "valid_op RemoveLastTurn = True"
| "valid_op StartNextLeg = True"
| "valid_op ResetSet = True"
| "valid_op (CreateNewLeg n) = True"

text \<open>The worlds reachable by operations with valid points.\<close>

inductive reachable_valid :: "World \<Rightarrow> bool" where
  vstart: "reachable_valid (startNewSet n1 n2 gt ml)"
| vempty: "reachable_valid \<lparr>nextTurnId = 1, setState = createEmptySet\<rparr>"
| vstep: "reachable_valid w \<Longrightarrow> valid_op x \<Longrightarrow> apply_op w x = Inr w' \<Longrightarrow> reachable_valid w'"

section \<open>Invariants of the current leg\<close>

text \<open>
  The running-score property of a turn list: the \<open>runningScore\<close> of the turn at
  position \<open>k\<close> is the starting score minus the points of that turn's player over
  the turns up to and including position \<open>k\<close>.
\<close>

definition running_ok :: "int \<Rightarrow> Turn list \<Rightarrow> bool" where
  "running_ok st ts \<longleftrightarrow>
     (\<forall>k < length ts. runningScore (ts ! k) = st - points_of (playerId (ts ! k)) (take (Suc k) ts))"

text \<open>
  The turn-order property: on an empty turn list player 0 is to throw; otherwise the
  player after the last thrower, or in a finished leg the last thrower.
\<close>

definition order_ok :: "SetState \<Rightarrow> LegState \<Rightarrow> bool" where
  "order_ok s leg \<longleftrightarrow>
     (if turns leg = [] then currentPlayerIndex leg = 0
      else if leg_isFinished leg
        then currentPlayerIndex leg =
               findIndex (\<lambda>p. player_id p = playerId (last (turns leg))) (players s)
        else currentPlayerIndex leg =
               (findIndex (\<lambda>p. player_id p = playerId (last (turns leg))) (players s) + 1)
                 mod int (length (players s)))"

text \<open>
  What every current leg of a run satisfies: the player ids are distinct, the current
  player index is an index of the player list, every turn was thrown by a player of the
  set, and the two properties above.
\<close>

definition wf_leg :: "SetState \<Rightarrow> LegState \<Rightarrow> bool" where
  "wf_leg s leg \<longleftrightarrow>
     distinct (map player_id (players s)) \<and>
     0 \<le> currentPlayerIndex leg \<and> currentPlayerIndex leg < int (length (players s)) \<and>
     (\<forall>t \<in> set (turns leg). playerId t \<in> player_id ` set (players s)) \<and>
     running_ok (score (startingScore leg)) (turns leg) \<and>
     order_ok s leg"

definition inv :: "World \<Rightarrow> bool" where
  "inv w \<longleftrightarrow> (case currentLeg (setState w) of None \<Rightarrow> True | Some leg \<Rightarrow> wf_leg (setState w) leg)"

text \<open>
  With valid points, every recorded score is non-negative and no player has thrown more
  than the starting score.
\<close>

definition points_ok :: "int \<Rightarrow> Turn list \<Rightarrow> bool" where
  "points_ok st ts \<longleftrightarrow> (\<forall>t \<in> set ts. 0 \<le> points t) \<and> (\<forall>pid. points_of pid ts \<le> st)"

definition inv_valid :: "World \<Rightarrow> bool" where
  "inv_valid w \<longleftrightarrow>
     (case currentLeg (setState w) of
        None \<Rightarrow> True
      | Some leg \<Rightarrow> points_ok (score (startingScore leg)) (turns leg))"

section \<open>Example matches\<close>

text \<open>
  Worlds met in a match between players A and B, used to run the operations on concrete
  input. Each is the result of a run from \<open>startNewSet\<close> (lemmas \<open>run_*\<close>).
\<close>

definition players_AB :: "Player list" where
  "players_AB = [\<lparr>player_id = 1, name = str ''A'', legsWon = 0\<rparr>,
                 \<lparr>player_id = 2, name = str ''B'', legsWon = 0\<rparr>]"

definition leg_three_turns :: LegState where
  "leg_three_turns =
     \<lparr>legNumber = 1, startingScore = G501,
      turns = [\<lparr>turn_id = 1, playerId = 1, points = 100, runningScore = 401\<rparr>,
               \<lparr>turn_id = 2, playerId = 2, points = 60, runningScore = 441\<rparr>,
               \<lparr>turn_id = 3, playerId = 1, points = 41, runningScore = 360\<rparr>],
      leg_isFinished = False, currentPlayerIndex = 1\<rparr>"

definition world_three_turns :: World where
  "world_three_turns =
     \<lparr>nextTurnId = 4,
      setState = \<lparr>players = players_AB, gameType = G501, maxLegs = 5,
                  currentLeg = Some leg_three_turns,
                  set_isFinished = False, winnerPlayerId = None\<rparr>\<rparr>"

text \<open>Player A has 40 left in a 301 leg and is to throw.\<close>

definition leg_forty_left :: LegState where
  "leg_forty_left =
     \<lparr>legNumber = 1, startingScore = G301,
      turns = [\<lparr>turn_id = 1, playerId = 1, points = 180, runningScore = 121\<rparr>,
               \<lparr>turn_id = 2, playerId = 2, points = 0, runningScore = 301\<rparr>,
               \<lparr>turn_id = 3, playerId = 1, points = 81, runningScore = 40\<rparr>,
               \<lparr>turn_id = 4, playerId = 2, points = 0, runningScore = 301\<rparr>],
      leg_isFinished = False, currentPlayerIndex = 0\<rparr>"

definition world_forty_left :: World where
  "world_forty_left =
     \<lparr>nextTurnId = 5,
      setState = \<lparr>players = players_AB, gameType = G301, maxLegs = 5,
                  currentLeg = Some leg_forty_left,
                  set_isFinished = False, winnerPlayerId = None\<rparr>\<rparr>"

text \<open>Player A has thrown 140 three times in a 501 leg, has 81 left and is to throw.\<close>

definition turns_before_checkout :: "Turn list" where
  "turns_before_checkout =
     [\<lparr>turn_id = 1, playerId = 1, points = 140, runningScore = 361\<rparr>,
      \<lparr>turn_id = 2, playerId = 2, points = 0, runningScore = 501\<rparr>,
      \<lparr>turn_id = 3, playerId = 1, points = 140, runningScore = 221\<rparr>,
      \<lparr>turn_id = 4, playerId = 2, points = 0, runningScore = 501\<rparr>,
      \<lparr>turn_id = 5, playerId = 1, points = 140, runningScore = 81\<rparr>,
      \<lparr>turn_id = 6, playerId = 2, points = 0, runningScore = 501\<rparr>]"

definition leg_before_checkout :: LegState where
  "leg_before_checkout =
     \<lparr>legNumber = 1, startingScore = G501, turns = turns_before_checkout,
      leg_isFinished = False, currentPlayerIndex = 0\<rparr>"

definition world_before_checkout :: World where
  "world_before_checkout =
     \<lparr>nextTurnId = 7,
      setState = \<lparr>players = players_AB, gameType = G501, maxLegs = 5,
                  currentLeg = Some leg_before_checkout,
                  set_isFinished = False, winnerPlayerId = None\<rparr>\<rparr>"

text \<open>The same match after player A has thrown the 81.\<close>

definition leg_won :: LegState where
  "leg_won =
     \<lparr>legNumber = 1, startingScore = G501,
      turns = turns_before_checkout
              @ [\<lparr>turn_id = 7, playerId = 1, points = 81, runningScore = 0\<rparr>],
      leg_isFinished = True, currentPlayerIndex = 0\<rparr>"

definition world_leg_won :: World where
  "world_leg_won =
     \<lparr>nextTurnId = 8,
      setState = \<lparr>players = [\<lparr>player_id = 1, name = str ''A'', legsWon = 1\<rparr>,
                             \<lparr>player_id = 2, name = str ''B'', legsWon = 0\<rparr>],
                  gameType = G501, maxLegs = 5, currentLeg = Some leg_won,
                  set_isFinished = False, winnerPlayerId = None\<rparr>\<rparr>"

section \<open>Library and loop lemmas\<close>

lemma findIndex_nth:
  "distinct (map f ps) \<Longrightarrow> i < length ps \<Longrightarrow> findIndex (\<lambda>p. f p = f (ps ! i)) ps = int i"
proof (induction ps arbitrary: i)
  case Nil
  then show ?case by simp
next
  case (Cons a ps)
  show ?case
  proof (cases i)
    case 0
    then show ?thesis by simp
  next
    case (Suc j)
    with Cons.prems have j: "j < length ps" and d: "distinct (map f ps)" and "f a \<notin> f ` set ps"
      by auto
    then have "f a \<noteq> f (ps ! j)" by (metis imageI nth_mem)
    moreover have "findIndex (\<lambda>p. f p = f (ps ! j)) ps = int j"
      using Cons.IH [OF d j] .
    ultimately show ?thesis using Suc by (simp add: Let_def)
  qed
qed

lemma findIndex_range:
  "x \<in> f ` set ps \<Longrightarrow>
     0 \<le> findIndex (\<lambda>p. f p = x) ps \<and> findIndex (\<lambda>p. f p = x) ps < int (length ps)"
  by (induction ps) (auto simp: Let_def)

lemma points_of_Nil [simp]: "points_of pid [] = 0"
  by (simp add: points_of_def)

lemma points_of_append [simp]: "points_of pid (xs @ ys) = points_of pid xs + points_of pid ys"
  by (simp add: points_of_def)

lemma points_of_single [simp]:
  "points_of pid [t] = (if playerId t = pid then points t else 0)"
  by (simp add: points_of_def)

lemma remaining_loop_eq: "remaining_loop pid ts r = r - points_of pid ts"
proof (induction ts arbitrary: r)
  case Nil
  then show ?case by simp
next
  case (Cons t ts)
  have "points_of pid (t # ts) = points_of pid [t] + points_of pid ts"
    using points_of_append [of pid "[t]" ts] by simp
  then show ?case using Cons.IH by simp
qed

lemma getRemaining_eq:
  "getRemainingScoreForPlayer leg pid = score (startingScore leg) - points_of pid (turns leg)"
  by (simp add: getRemainingScoreForPlayer_def remaining_loop_eq)

lemma running_ok_Nil [simp]: "running_ok st []"
  by (simp add: running_ok_def)

lemma running_ok_snoc:
  "running_ok st (ts @ [t]) \<longleftrightarrow>
     running_ok st ts \<and> runningScore t = st - points_of (playerId t) (ts @ [t])"
  by (auto simp: running_ok_def less_Suc_eq nth_append all_conj_distrib)

lemma running_ok_butlast: "running_ok st ts \<Longrightarrow> running_ok st (butlast ts)"
proof (cases "ts = []")
  case True
  then show ?thesis by simp
next
  case False
  assume "running_ok st ts"
  moreover from False have "ts = butlast ts @ [last ts]" by simp
  ultimately have "running_ok st (butlast ts @ [last ts])" by simp
  then show ?thesis unfolding running_ok_snoc by simp
qed

lemma init_scores_eq:
  "init_scores ps st m pid = (if pid \<in> player_id ` set ps then Some st else m pid)"
  by (induction ps arbitrary: m) auto

lemma replay_same:
  assumes "\<forall>t \<in> set ts. playerId t \<in> ids"
    and "\<forall>pid \<in> ids. m pid = Some (st - points_of pid pre)"
    and "running_ok st (pre @ ts)"
  shows "replay m ts = Inr ts"
  using assms
proof (induction ts arbitrary: pre m)
  case Nil
  then show ?case by simp
next
  case (Cons t ts)
  let ?pid = "playerId t"
  let ?upd = "st - points_of ?pid pre - points t"
  from Cons.prems(1) have pid: "?pid \<in> ids" by simp
  with Cons.prems(2) have m: "m ?pid = Some (st - points_of ?pid pre)" by blast
  from Cons.prems(3) have ok: "running_ok st ((pre @ [t]) @ ts)" by simp
  have "length pre < length (pre @ t # ts)" by simp
  with Cons.prems(3) have "runningScore ((pre @ t # ts) ! length pre)
      = st - points_of (playerId ((pre @ t # ts) ! length pre)) (take (Suc (length pre)) (pre @ t # ts))"
    unfolding running_ok_def by blast
  then have rs: "runningScore t = ?upd" by simp
  have m': "\<forall>p \<in> ids. (m(?pid \<mapsto> ?upd)) p = Some (st - points_of p (pre @ [t]))"
    using Cons.prems(2) by auto
  have ts: "\<forall>t \<in> set ts. playerId t \<in> ids" using Cons.prems(1) by simp
  have "replay (m(?pid \<mapsto> ?upd)) ts = Inr ts"
    by (rule Cons.IH [OF ts m' ok])
  moreover have "t\<lparr>runningScore := ?upd\<rparr> = t" using rs by simp
  ultimately show ?case using m by (simp add: Let_def)
qed

lemma replay_wf:
  assumes "\<forall>t \<in> set ts. playerId t \<in> player_id ` set ps" and "running_ok st ts"
  shows "replay (init_scores ps st Map.empty) ts = Inr ts"
  using replay_same [of ts "player_id ` set ps" "init_scores ps st Map.empty" st "[]"] assms
  by (simp add: init_scores_eq)

text \<open>
  In \<open>removeLastTurn\<close> the remainder by \<open>players.length\<close> is taken only after
  the replay of a non-empty turn list has succeeded, and then the set has a player: the
  divisor is never 0.
\<close>

lemma replay_Inr_dom: "replay m ts = Inr ts' \<Longrightarrow> t \<in> set ts \<Longrightarrow> playerId t \<in> dom m"
proof (induction ts arbitrary: m ts')
  case Nil
  then show ?case by simp
next
  case (Cons a ts)
  from Cons.prems(1) obtain cur where cur: "m (playerId a) = Some cur"
    by (auto split: option.splits)
  with Cons.prems(1) obtain rest where
    rest: "replay (m(playerId a \<mapsto> cur - points a)) ts = Inr rest"
    by (auto simp: Let_def split: sum.splits)
  show ?case
  proof (cases "t = a")
    case True
    with cur show ?thesis by auto
  next
    case False
    with Cons.prems(2) have "t \<in> set ts" by simp
    from Cons.IH [OF rest this] cur show ?thesis by (auto split: if_splits)
  qed
qed

lemma replay_needs_players:
  assumes "replay (init_scores ps st Map.empty) ts = Inr ts'" and "ts \<noteq> []"
  shows "ps \<noteq> []"
proof
  assume "ps = []"
  with assms(1) have "replay Map.empty ts = Inr ts'" by simp
  moreover from assms(2) obtain t where "t \<in> set ts" by (cases ts) auto
  ultimately have "playerId t \<in> dom (Map.empty :: int \<rightharpoonup> int)" by (rule replay_Inr_dom)
  then show False by simp
qed

lemma winner_loop_fields:
  "players (winner_loop n ps s) = players s \<and> currentLeg (winner_loop n ps s) = currentLeg s
   \<and> gameType (winner_loop n ps s) = gameType s \<and> maxLegs (winner_loop n ps s) = maxLegs s"
  by (induction ps) auto

lemma updateSetWinner_fields [simp]:
  "players (updateSetWinner s) = players s"
  "currentLeg (updateSetWinner s) = currentLeg s"
  "gameType (updateSetWinner s) = gameType s"
  "maxLegs (updateSetWinner s) = maxLegs s"
  by (simp_all add: updateSetWinner_def winner_loop_fields)

section \<open>The invariant holds on every run\<close>

lemma inv_start: "inv (startNewSet n1 n2 gt ml)"
  by (simp add: inv_def startNewSet_def createNewLeg_def wf_leg_def order_ok_def Let_def)

lemma inv_empty: "inv \<lparr>nextTurnId = 1, setState = createEmptySet\<rparr>"
  by (simp add: inv_def createEmptySet_def)

lemma at_index_Some:
  "at_index xs i = Some x \<longleftrightarrow> 0 \<le> i \<and> i < int (length xs) \<and> x = xs ! nat i"
  by (auto simp: at_index_def)

lemma map_player_id_update:
  "nat i < length ps \<Longrightarrow> map player_id (ps[nat i := (ps ! nat i)\<lparr>legsWon := n\<rparr>]) = map player_id ps"
  by (simp add: map_update list_update_same_conv)

lemma inv_addTurn:
  assumes "inv w" and "addTurn w pts = Inr (w', r)"
  shows "inv w'"
proof (cases "currentLeg (setState w)")
  case None
  with assms show ?thesis by (simp add: addTurn_def)
next
  case (Some leg)
  let ?s = "setState w"
  let ?ps = "players ?s"
  let ?i = "currentPlayerIndex leg"
  from assms(1) Some have wf: "wf_leg ?s leg" by (simp add: inv_def)
  then have d: "distinct (map player_id ?ps)" and i0: "0 \<le> ?i" and i1: "?i < int (length ?ps)"
    and ids: "\<forall>t \<in> set (turns leg). playerId t \<in> player_id ` set ?ps"
    and rok: "running_ok (score (startingScore leg)) (turns leg)"
    by (simp_all add: wf_leg_def)
  let ?p = "?ps ! nat ?i"
  have at: "at_index ?ps ?i = Some ?p" using i0 i1 by (simp add: at_index_def)
  have ni: "nat ?i < length ?ps" using i0 i1 by simp
  have fi: "findIndex (\<lambda>p. player_id p = player_id ?p) ?ps = ?i"
    using findIndex_nth [OF d ni] i0 by simp
  have pin: "player_id ?p \<in> player_id ` set ?ps" using ni by simp
  let ?after = "getRemainingScoreForPlayer leg (player_id ?p) - pts"
  let ?turn = "\<lparr>turn_id = nextTurnId w, playerId = player_id ?p, points = pts, runningScore = ?after\<rparr>"
  have rok': "running_ok (score (startingScore leg)) (turns leg @ [?turn])"
    using rok by (simp add: running_ok_snoc getRemaining_eq)
  consider (noop) "set_isFinished ?s \<or> leg_isFinished leg \<or> ?after < 0"
    | (fin) "\<not> set_isFinished ?s" "\<not> leg_isFinished leg" "?after = 0"
    | (go) "\<not> set_isFinished ?s" "\<not> leg_isFinished leg" "?after > 0"
    by linarith
  then show ?thesis
  proof cases
    case noop
    with assms(2) Some at have "w' = w" by (auto simp: addTurn_def Let_def split: if_splits)
    with assms(1) show ?thesis by simp
  next
    case fin
    let ?won = "?p\<lparr>legsWon := legsWon ?p + 1\<rparr>"
    let ?leg2 = "leg\<lparr>turns := turns leg @ [?turn], leg_isFinished := True\<rparr>"
    from fin assms(2) Some at
    have w': "w' = \<lparr>nextTurnId = nextTurnId w + 1,
                     setState = updateSetWinner (?s\<lparr>players := ?ps[nat ?i := ?won], currentLeg := Some ?leg2\<rparr>)\<rparr>"
      by (simp add: addTurn_def Let_def)
    have mp: "map player_id (?ps[nat ?i := ?won]) = map player_id ?ps"
      by (rule map_player_id_update [OF ni])
    have setp: "player_id ` set (?ps[nat ?i := ?won]) = player_id ` set ?ps"
      using mp by (metis set_map)
    have fi': "findIndex (\<lambda>p. player_id p = player_id ?p) (?ps[nat ?i := ?won]) = ?i"
    proof -
      have "(?ps[nat ?i := ?won]) ! nat ?i = ?won" using ni by simp
      moreover have "distinct (map player_id (?ps[nat ?i := ?won]))" using mp d by simp
      moreover have "nat ?i < length (?ps[nat ?i := ?won])" using ni by simp
      ultimately have "findIndex (\<lambda>p. player_id p = player_id ?won) (?ps[nat ?i := ?won]) = int (nat ?i)"
        using findIndex_nth [of player_id "?ps[nat ?i := ?won]" "nat ?i"] by simp
      then show ?thesis using i0 by simp
    qed
    show ?thesis
      unfolding w' inv_def wf_leg_def order_ok_def
      using d i0 i1 ids rok' pin mp setp fi' by simp
  next
    case go
    let ?leg2 = "leg\<lparr>turns := turns leg @ [?turn],
                     currentPlayerIndex := (?i + 1) mod int (length ?ps)\<rparr>"
    from go assms(2) Some at
    have w': "w' = \<lparr>nextTurnId = nextTurnId w + 1, setState = ?s\<lparr>currentLeg := Some ?leg2\<rparr>\<rparr>"
      by (simp add: addTurn_def Let_def)
    have pos: "0 < int (length ?ps)" using i0 i1 by linarith
    show ?thesis
      unfolding w' inv_def wf_leg_def order_ok_def
      using d i0 i1 ids rok' pin fi pos go(2) by simp
  qed
qed

lemma removeLastTurn_wf:
  assumes "currentLeg (setState w) = Some leg" and "wf_leg (setState w) leg"
    and "turns leg \<noteq> []" and "\<not> leg_isFinished leg"
  shows "removeLastTurn w =
           Inr \<lparr>nextTurnId = 1,
                setState = (setState w)\<lparr>currentLeg := Some (leg\<lparr>turns := butlast (turns leg),
                  currentPlayerIndex :=
                    (if butlast (turns leg) = [] then 0
                     else (findIndex (\<lambda>p. player_id p = playerId (last (butlast (turns leg))))
                             (players (setState w)) + 1) mod int (length (players (setState w))))\<rparr>)\<rparr>\<rparr>"
proof -
  from assms(2) have ids: "\<forall>t \<in> set (butlast (turns leg)). playerId t \<in> player_id ` set (players (setState w))"
    and rok: "running_ok (score (startingScore leg)) (butlast (turns leg))"
    by (auto simp: wf_leg_def running_ok_butlast dest: in_set_butlastD)
  have "replay (init_scores (players (setState w)) (score (startingScore leg)) Map.empty)
          (butlast (turns leg)) = Inr (butlast (turns leg))"
    by (rule replay_wf [OF ids rok])
  then show ?thesis using assms(1,3,4) by (simp add: removeLastTurn_def Let_def)
qed

lemma inv_removeLastTurn:
  assumes "inv w" and "removeLastTurn w = Inr w'"
  shows "inv w'"
proof (cases "currentLeg (setState w)")
  case None
  with assms show ?thesis by (simp add: removeLastTurn_def)
next
  case (Some leg)
  from assms(1) Some have wf: "wf_leg (setState w) leg" by (simp add: inv_def)
  show ?thesis
  proof (cases "turns leg = [] \<or> leg_isFinished leg")
    case True
    with assms Some show ?thesis by (auto simp: removeLastTurn_def)
  next
    case False
    then have ne: "turns leg \<noteq> []" and nf: "\<not> leg_isFinished leg" by simp_all
    note eq = removeLastTurn_wf [OF Some wf ne nf]
    from wf have "0 \<le> currentPlayerIndex leg" "currentPlayerIndex leg < int (length (players (setState w)))"
      by (simp_all add: wf_leg_def)
    then have pos: "0 < int (length (players (setState w)))" by linarith
    from wf have "\<forall>t \<in> set (butlast (turns leg)). playerId t \<in> player_id ` set (players (setState w))"
      by (auto simp: wf_leg_def dest: in_set_butlastD)
    moreover from wf have "running_ok (score (startingScore leg)) (butlast (turns leg))"
      by (simp add: wf_leg_def running_ok_butlast)
    moreover from wf have "distinct (map player_id (players (setState w)))" by (simp add: wf_leg_def)
    ultimately show ?thesis
      using assms(2) pos nf unfolding eq
      by (auto simp: inv_def wf_leg_def order_ok_def)
  qed
qed

lemma inv_startNextLeg: "inv w \<Longrightarrow> inv (startNextLeg w)"
  by (auto simp: inv_def startNextLeg_def createNewLeg_def wf_leg_def order_ok_def Let_def
      split: option.splits)

lemma inv_apply_op: "inv w \<Longrightarrow> apply_op w x = Inr w' \<Longrightarrow> inv w'"
proof (cases x)
  case (AddTurn pts)
  assume "inv w" "apply_op w x = Inr w'"
  with AddTurn show ?thesis by (auto split: sum.splits dest: inv_addTurn)
next
  case RemoveLastTurn
  assume "inv w" "apply_op w x = Inr w'"
  with RemoveLastTurn show ?thesis by (auto dest: inv_removeLastTurn)
next
  case StartNextLeg
  assume "inv w" "apply_op w x = Inr w'"
  with StartNextLeg show ?thesis by (auto dest: inv_startNextLeg)
next
  case ResetSet
  assume "inv w" "apply_op w x = Inr w'"
  with ResetSet show ?thesis by (auto simp: inv_def resetSet_def split: option.splits)
next
  case (CreateNewLeg n)
  assume "inv w" "apply_op w x = Inr w'"
  with CreateNewLeg show ?thesis by (auto simp: inv_def split: option.splits)
qed

lemma reachable_inv: "reachable w \<Longrightarrow> inv w"
  by (induction rule: reachable.induct) (auto intro: inv_start inv_empty inv_apply_op)

lemma reachable_run: "reachable w \<Longrightarrow> run w xs = Inr w' \<Longrightarrow> reachable w'"
  by (induction xs arbitrary: w) (auto split: sum.splits intro: reachable.step)

section \<open>No operation fails on a reachable world\<close>

text \<open>
  On a reachable world \<open>addTurn\<close> finds its acting player and the replay of
  \<open>removeLastTurn\<close> finds an entry for every turn: the error branches of the model
  are never taken, and every run from a reachable world returns.
\<close>

lemma addTurn_total: "inv w \<Longrightarrow> \<exists>w' r. addTurn w pts = Inr (w', r)"
  by (auto simp: inv_def wf_leg_def addTurn_def at_index_def Let_def split: option.splits)

lemma removeLastTurn_total:
  assumes "inv w"
  shows "\<exists>w'. removeLastTurn w = Inr w'"
proof (cases "currentLeg (setState w)")
  case None
  then show ?thesis by (simp add: removeLastTurn_def)
next
  case (Some leg)
  from assms Some have wf: "wf_leg (setState w) leg" by (simp add: inv_def)
  show ?thesis
  proof (cases "turns leg = [] \<or> leg_isFinished leg")
    case True
    with Some show ?thesis by (auto simp: removeLastTurn_def)
  next
    case False
    then have "turns leg \<noteq> []" "\<not> leg_isFinished leg" by simp_all
    from removeLastTurn_wf [OF Some wf this] show ?thesis by blast
  qed
qed

lemma reachable_total: "reachable w \<Longrightarrow> \<exists>w'. apply_op w x = Inr w'"
proof -
  assume "reachable w"
  then have i: "inv w" by (rule reachable_inv)
  show ?thesis
  proof (cases x)
    case (AddTurn pts)
    from addTurn_total [OF i, of pts] AddTurn show ?thesis by auto
  next
    case RemoveLastTurn
    with removeLastTurn_total [OF i] show ?thesis by simp
  qed simp_all
qed

lemma run_total: "reachable w \<Longrightarrow> \<exists>w'. run w xs = Inr w'"
proof (induction xs arbitrary: w)
  case Nil
  then show ?case by simp
next
  case (Cons x xs)
  from reachable_total [OF Cons.prems, of x] obtain w1 where w1: "apply_op w x = Inr w1" ..
  with Cons.prems have "reachable w1" by (rule reachable.step)
  from Cons.IH [OF this] w1 show ?case by simp
qed

section \<open>Runs with valid points\<close>

lemma score_nonneg: "0 \<le> score gt"
  by (cases gt) simp_all

lemma points_of_nonneg: "\<forall>t \<in> set ts. 0 \<le> points t \<Longrightarrow> 0 \<le> points_of pid ts"
  by (induction ts) (auto simp: points_of_def)

lemma points_of_take_le:
  assumes "\<forall>t \<in> set ts. 0 \<le> points t"
  shows "points_of pid (take n ts) \<le> points_of pid ts"
proof -
  have "points_of pid ts = points_of pid (take n ts) + points_of pid (drop n ts)"
    using points_of_append [of pid "take n ts" "drop n ts"] by simp
  moreover have "0 \<le> points_of pid (drop n ts)"
    using assms by (intro points_of_nonneg) (auto dest: in_set_dropD)
  ultimately show ?thesis by linarith
qed

lemma points_ok_Nil: "points_ok (score gt) []"
  by (simp add: points_ok_def score_nonneg)

lemma points_ok_butlast: "points_ok st ts \<Longrightarrow> points_ok st (butlast ts)"
proof -
  assume a: "points_ok st ts"
  then have nn: "\<forall>t \<in> set ts. 0 \<le> points t" by (simp add: points_ok_def)
  have "\<forall>pid. points_of pid (butlast ts) \<le> st"
  proof
    fix pid
    have "points_of pid (take (length ts - 1) ts) \<le> points_of pid ts"
      by (rule points_of_take_le [OF nn])
    moreover from a have "points_of pid ts \<le> st" by (simp add: points_ok_def)
    ultimately show "points_of pid (butlast ts) \<le> st" by (simp add: butlast_conv_take)
  qed
  moreover from nn have "\<forall>t \<in> set (butlast ts). 0 \<le> points t"
    by (auto dest: in_set_butlastD)
  ultimately show ?thesis by (simp add: points_ok_def)
qed

lemma points_ok_snoc:
  assumes "points_ok st ts" and "0 \<le> points t"
    and "0 \<le> st - points_of (playerId t) ts - points t"
  shows "points_ok st (ts @ [t])"
  using assms by (auto simp: points_ok_def)

lemma inv_valid_addTurn:
  assumes "inv_valid w" and "0 \<le> pts" and "addTurn w pts = Inr (w', r)"
  shows "inv_valid w'"
proof (cases "currentLeg (setState w)")
  case None
  with assms show ?thesis by (simp add: addTurn_def)
next
  case (Some leg)
  note l = Some
  from assms(1) l have ok: "points_ok (score (startingScore leg)) (turns leg)"
    by (simp add: inv_valid_def)
  show ?thesis
  proof (cases "at_index (players (setState w)) (currentPlayerIndex leg)")
    case None
    with assms l show ?thesis
      by (auto simp: addTurn_def Let_def split: if_splits)
  next
    case a: (Some p)
    let ?after = "getRemainingScoreForPlayer leg (player_id p) - pts"
    let ?turn = "\<lparr>turn_id = nextTurnId w, playerId = player_id p, points = pts, runningScore = ?after\<rparr>"
    consider (noop) "set_isFinished (setState w) \<or> leg_isFinished leg \<or> ?after < 0"
      | (fin) "\<not> set_isFinished (setState w)" "\<not> leg_isFinished leg" "?after = 0"
      | (go) "\<not> set_isFinished (setState w)" "\<not> leg_isFinished leg" "?after > 0"
      by linarith
    then show ?thesis
    proof cases
      case noop
      with assms(3) l a have "w' = w" by (auto simp: addTurn_def Let_def split: if_splits)
      with assms(1) show ?thesis by simp
    next
      case fin
      then have "0 \<le> score (startingScore leg) - points_of (playerId ?turn) (turns leg) - points ?turn"
        by (simp add: getRemaining_eq)
      with ok assms(2) have ok': "points_ok (score (startingScore leg)) (turns leg @ [?turn])"
        by (intro points_ok_snoc) simp_all
      from fin assms(3) l a have "currentLeg (setState w')
          = Some (leg\<lparr>turns := turns leg @ [?turn], leg_isFinished := True\<rparr>)"
        by (auto simp: addTurn_def Let_def)
      with ok' show ?thesis by (simp add: inv_valid_def)
    next
      case go
      then have "0 \<le> score (startingScore leg) - points_of (playerId ?turn) (turns leg) - points ?turn"
        by (simp add: getRemaining_eq)
      with ok assms(2) have ok': "points_ok (score (startingScore leg)) (turns leg @ [?turn])"
        by (intro points_ok_snoc) simp_all
      from go assms(3) l a have "currentLeg (setState w')
          = Some (leg\<lparr>turns := turns leg @ [?turn],
                       currentPlayerIndex := (currentPlayerIndex leg + 1) mod int (length (players (setState w)))\<rparr>)"
        by (auto simp: addTurn_def Let_def)
      with ok' show ?thesis by (simp add: inv_valid_def)
    qed
  qed
qed

lemma inv_valid_removeLastTurn:
  assumes "inv w" and "inv_valid w" and "removeLastTurn w = Inr w'"
  shows "inv_valid w'"
proof (cases "currentLeg (setState w)")
  case None
  with assms show ?thesis by (simp add: removeLastTurn_def)
next
  case (Some leg)
  from assms(1) Some have wf: "wf_leg (setState w) leg" by (simp add: inv_def)
  from assms(2) Some have ok: "points_ok (score (startingScore leg)) (turns leg)"
    by (simp add: inv_valid_def)
  show ?thesis
  proof (cases "turns leg = [] \<or> leg_isFinished leg")
    case True
    with assms Some show ?thesis by (auto simp: removeLastTurn_def)
  next
    case False
    then have ne: "turns leg \<noteq> []" and nf: "\<not> leg_isFinished leg" by simp_all
    note eq = removeLastTurn_wf [OF Some wf ne nf]
    from assms(3) points_ok_butlast [OF ok] show ?thesis
      unfolding eq by (auto simp: inv_valid_def)
  qed
qed

lemma inv_valid_startNextLeg: "inv_valid w \<Longrightarrow> inv_valid (startNextLeg w)"
  by (auto simp: inv_valid_def startNextLeg_def createNewLeg_def Let_def points_ok_Nil
      split: option.splits)

lemma inv_valid_apply_op:
  assumes "inv w" and "inv_valid w" and "valid_op x" and "apply_op w x = Inr w'"
  shows "inv_valid w'"
proof (cases x)
  case (AddTurn pts)
  with assms show ?thesis by (auto split: sum.splits dest: inv_valid_addTurn)
next
  case RemoveLastTurn
  with assms show ?thesis by (auto dest: inv_valid_removeLastTurn)
next
  case StartNextLeg
  with assms show ?thesis by (auto dest: inv_valid_startNextLeg)
next
  case ResetSet
  with assms show ?thesis by (auto simp: inv_valid_def resetSet_def split: option.splits)
next
  case (CreateNewLeg n)
  with assms show ?thesis by (auto simp: inv_valid_def split: option.splits)
qed

lemma reachable_valid_reachable: "reachable_valid w \<Longrightarrow> reachable w"
  by (induction rule: reachable_valid.induct) (auto intro: reachable.intros)

lemma reachable_valid_inv: "reachable_valid w \<Longrightarrow> inv_valid w"
proof (induction rule: reachable_valid.induct)
  case (vstart n1 n2 gt ml)
  show ?case
    by (simp add: inv_valid_def startNewSet_def createNewLeg_def Let_def points_ok_Nil)
next
  case vempty
  show ?case by (simp add: inv_valid_def createEmptySet_def)
next
  case (vstep w x w')
  from vstep.hyps(1) have "inv w" by (intro reachable_inv reachable_valid_reachable)
  from inv_valid_apply_op [OF this vstep.IH vstep.hyps(2,3)] show ?case .
qed

lemma reachable_valid_run:
  "reachable_valid w \<Longrightarrow> list_all valid_op xs \<Longrightarrow> run w xs = Inr w' \<Longrightarrow> reachable_valid w'"
  by (induction xs arbitrary: w) (auto split: sum.splits intro: reachable_valid.vstep)

section \<open>The example matches are runs\<close>

lemmas engine_defs =
  startNewSet_def createNewLeg_def addTurn_def removeLastTurn_def startNextLeg_def
  resetSet_def updateSetWinner_def getRemainingScoreForPlayer_def at_index_def no_turn_def
  trim_def or_else_def isWhiteSpace_def str_def Let_def

lemmas example_defs =
  players_AB_def leg_three_turns_def world_three_turns_def leg_forty_left_def
  world_forty_left_def turns_before_checkout_def leg_before_checkout_def
  world_before_checkout_def leg_won_def world_leg_won_def

lemma run_three_turns:
  "run (startNewSet (str ''A'') (str ''B'') G501 5) [AddTurn 100, AddTurn 60, AddTurn 41]
     = Inr world_three_turns"
  by (simp add: engine_defs example_defs)

lemma run_forty_left:
  "run (startNewSet (str ''A'') (str ''B'') G301 5) [AddTurn 180, AddTurn 0, AddTurn 81, AddTurn 0]
     = Inr world_forty_left"
  by (simp add: engine_defs example_defs)

lemma run_before_checkout:
  "run (startNewSet (str ''A'') (str ''B'') G501 5)
       [AddTurn 140, AddTurn 0, AddTurn 140, AddTurn 0, AddTurn 140, AddTurn 0]
     = Inr world_before_checkout"
  by (simp add: engine_defs example_defs)

lemma run_leg_won:
  "run world_before_checkout [AddTurn 81] = Inr world_leg_won"
  by (simp add: engine_defs example_defs)

lemma reachable_three_turns: "reachable world_three_turns"
  using reachable_run [OF reachable.start run_three_turns] .

lemma reachable_valid_three_turns: "reachable_valid world_three_turns"
proof -
  have "list_all valid_op [AddTurn 100, AddTurn 60, AddTurn 41]"
    by (simp add: MAX_SAFE_INTEGER_def)
  from reachable_valid_run [OF reachable_valid.vstart this run_three_turns] show ?thesis .
qed

lemma reachable_before_checkout: "reachable world_before_checkout"
  using reachable_run [OF reachable.start run_before_checkout] .

lemma reachable_leg_won: "reachable world_leg_won"
  using reachable_run [OF reachable_before_checkout run_leg_won] .

section \<open>C1: running scores\<close>

text \<open>
  With valid points the remainder that \<open>addTurn\<close> computes is a safe integer, also
  when the turn is rejected.
\<close>

lemma valid_turn_remainder_safe:
  assumes "reachable_valid w" and "currentLeg (setState w) = Some leg"
    and "0 \<le> pts" and "pts \<le> MAX_SAFE_INTEGER"
  shows "- MAX_SAFE_INTEGER \<le> getRemainingScoreForPlayer leg pid - pts
         \<and> getRemainingScoreForPlayer leg pid - pts \<le> MAX_SAFE_INTEGER"
proof -
  from assms(1,2) have ok: "points_ok (score (startingScore leg)) (turns leg)"
    using reachable_valid_inv [of w] by (simp add: inv_valid_def)
  then have "points_of pid (turns leg) \<le> score (startingScore leg)"
    by (simp add: points_ok_def)
  moreover from ok have "0 \<le> points_of pid (turns leg)"
    by (intro points_of_nonneg) (simp add: points_ok_def)
  moreover have "score (startingScore leg) \<le> 501" by (cases "startingScore leg") simp_all
  ultimately show ?thesis
    using assms(3,4) by (simp add: getRemaining_eq MAX_SAFE_INTEGER_def)
qed

text \<open>
  C1. Running-score invariant: in every world reachable by the engine's operations with
  valid points, the \<open>runningScore\<close> of every turn of the current leg is the leg's
  starting score minus the points of that turn's player over the turns up to and including
  it, and \<open>getRemainingScoreForPlayer\<close> is the starting score minus the player's
  points over all turns of the leg. Every remainder along the turn list lies between 0
  and the starting score, so the code computes all of them exactly, and every operation
  invoked on such a world returns.
\<close>

theorem running_score_invariant:
  assumes "reachable_valid w" and "currentLeg (setState w) = Some leg"
  shows "(\<forall>k < length (turns leg).
            runningScore (turns leg ! k)
              = score (startingScore leg)
                - points_of (playerId (turns leg ! k)) (take (Suc k) (turns leg)))
       \<and> (\<forall>pid. getRemainingScoreForPlayer leg pid
                   = score (startingScore leg) - points_of pid (turns leg))
       \<and> (\<forall>pid n. 0 \<le> score (startingScore leg) - points_of pid (take n (turns leg))
                  \<and> score (startingScore leg) - points_of pid (take n (turns leg))
                      \<le> score (startingScore leg))
       \<and> (\<forall>x. \<exists>w'. apply_op w x = Inr w')"
proof -
  have r: "reachable w" by (rule reachable_valid_reachable [OF assms(1)])
  with assms(2) have "wf_leg (setState w) leg"
    using reachable_inv [of w] by (simp add: inv_def)
  then have "running_ok (score (startingScore leg)) (turns leg)"
    by (simp add: wf_leg_def)
  then have scores: "\<forall>k < length (turns leg).
            runningScore (turns leg ! k)
              = score (startingScore leg)
                - points_of (playerId (turns leg ! k)) (take (Suc k) (turns leg))"
    by (simp add: running_ok_def)
  have remaining: "\<forall>pid. getRemainingScoreForPlayer leg pid
                   = score (startingScore leg) - points_of pid (turns leg)"
    by (simp add: getRemaining_eq)
  from assms have ok: "points_ok (score (startingScore leg)) (turns leg)"
    using reachable_valid_inv [of w] by (simp add: inv_valid_def)
  then have nn: "\<forall>t \<in> set (turns leg). 0 \<le> points t" by (simp add: points_ok_def)
  have bounds: "\<forall>pid n. 0 \<le> score (startingScore leg) - points_of pid (take n (turns leg))
                  \<and> score (startingScore leg) - points_of pid (take n (turns leg))
                      \<le> score (startingScore leg)"
  proof (intro allI)
    fix pid n
    have "points_of pid (take n (turns leg)) \<le> points_of pid (turns leg)"
      by (rule points_of_take_le [OF nn])
    moreover from ok have "points_of pid (turns leg) \<le> score (startingScore leg)"
      by (simp add: points_ok_def)
    moreover have "0 \<le> points_of pid (take n (turns leg))"
      using nn by (intro points_of_nonneg) (auto dest: in_set_takeD)
    ultimately show "0 \<le> score (startingScore leg) - points_of pid (take n (turns leg))
                  \<and> score (startingScore leg) - points_of pid (take n (turns leg))
                      \<le> score (startingScore leg)"
      by linarith
  qed
  have total: "\<forall>x. \<exists>w'. apply_op w x = Inr w'"
    using reachable_total [OF r] by blast
  from scores remaining bounds total show ?thesis by blast
qed

theorem running_score_invariant_witness:
  "reachable_valid world_three_turns
   \<and> currentLeg (setState world_three_turns) = Some leg_three_turns
   \<and> runningScore (turns leg_three_turns ! 2) = 360
   \<and> score (startingScore leg_three_turns)
       - points_of (playerId (turns leg_three_turns ! 2)) (take (Suc 2) (turns leg_three_turns)) = 360
   \<and> getRemainingScoreForPlayer leg_three_turns 2 = 441
   \<and> score (startingScore leg_three_turns) - points_of 2 (turns leg_three_turns) = 441
   \<and> (\<exists>w'. apply_op world_three_turns RemoveLastTurn = Inr w')"
proof -
  have l: "currentLeg (setState world_three_turns) = Some leg_three_turns"
    by (simp add: example_defs)
  note inst = running_score_invariant [OF reachable_valid_three_turns l]
  have len: "2 < length (turns leg_three_turns)" by (simp add: example_defs)
  from inst len have "runningScore (turns leg_three_turns ! 2)
      = score (startingScore leg_three_turns)
        - points_of (playerId (turns leg_three_turns ! 2)) (take (Suc 2) (turns leg_three_turns))"
    by blast
  moreover from inst have "getRemainingScoreForPlayer leg_three_turns 2
      = score (startingScore leg_three_turns) - points_of 2 (turns leg_three_turns)"
    by blast
  moreover from inst have "\<exists>w'. apply_op world_three_turns RemoveLastTurn = Inr w'"
    by blast
  moreover have "runningScore (turns leg_three_turns ! 2) = 360"
    by (simp add: example_defs)
  moreover have "getRemainingScoreForPlayer leg_three_turns 2 = 441"
    by (simp add: example_defs getRemainingScoreForPlayer_def)
  ultimately show ?thesis using reachable_valid_three_turns l by simp
qed

section \<open>C2: turn ids\<close>

text \<open>
  C2. Turn ids are meant to be distinct within a leg. \<open>removeLastTurn\<close> sets the
  counter back to 1 and leaves the ids of the remaining turns as they are, so the next
  turn repeats id 1: after two turns, an undo and a third turn the leg's ids are 1, 1.
\<close>

theorem turn_ids_repeat_after_undo:
  "\<exists>w leg. run (startNewSet (str ''A'') (str ''B'') G501 5)
               [AddTurn 10, AddTurn 20, RemoveLastTurn, AddTurn 30] = Inr w
     \<and> currentLeg (setState w) = Some leg
     \<and> map turn_id (turns leg) = [1, 1]"
  by (simp add: engine_defs)

section \<open>C3: bust rejection\<close>

text \<open>
  C3. Bust rejection is atomic: when the acting player's remaining score minus the points
  is negative, \<open>addTurn\<close> returns the world it was given, with every field of the
  set, the leg and the players (and the module's counter) as before, and the result
  \<open>{legFinished: false, winner: null}\<close>.
\<close>

theorem addTurn_bust_rejected:
  assumes "currentLeg (setState w) = Some leg"
    and "at_index (players (setState w)) (currentPlayerIndex leg) = Some p"
    and "getRemainingScoreForPlayer leg (player_id p) - pts < 0"
  shows "addTurn w pts = Inr (w, \<lparr>legFinished = False, winner = None\<rparr>)"
  using assms by (simp add: addTurn_def Let_def no_turn_def)

theorem addTurn_bust_rejected_witness:
  "currentLeg (setState world_forty_left) = Some leg_forty_left
   \<and> at_index (players (setState world_forty_left)) (currentPlayerIndex leg_forty_left)
       = Some \<lparr>player_id = 1, name = str ''A'', legsWon = 0\<rparr>
   \<and> getRemainingScoreForPlayer leg_forty_left 1 = 40
   \<and> addTurn world_forty_left 45 = Inr (world_forty_left, \<lparr>legFinished = False, winner = None\<rparr>)"
proof -
  have l: "currentLeg (setState world_forty_left) = Some leg_forty_left"
    by (simp add: example_defs)
  have p: "at_index (players (setState world_forty_left)) (currentPlayerIndex leg_forty_left)
             = Some \<lparr>player_id = 1, name = str ''A'', legsWon = 0\<rparr>"
    by (simp add: example_defs at_index_def)
  have r: "getRemainingScoreForPlayer leg_forty_left 1 = 40"
    by (simp add: example_defs getRemainingScoreForPlayer_def)
  have b: "getRemainingScoreForPlayer leg_forty_left
             (player_id \<lparr>player_id = 1, name = str ''A'', legsWon = 0\<rparr>) - 45 < 0"
    using r by simp
  from addTurn_bust_rejected [OF l p b] l p r show ?thesis by simp
qed

section \<open>C4: the finishing turn\<close>

lemma addTurn_finished_leg:
  "currentLeg (setState w) = Some leg \<Longrightarrow> leg_isFinished leg \<Longrightarrow> addTurn w q = Inr (w, no_turn)"
  by (simp add: addTurn_def)

lemma removeLastTurn_finished_leg:
  "currentLeg (setState w) = Some leg \<Longrightarrow> leg_isFinished leg \<Longrightarrow> removeLastTurn w = Inr w"
  by (simp add: removeLastTurn_def)

text \<open>
  C4. Finishing turn: with a current unfinished leg in an unfinished set, a turn that
  brings the acting player's remaining score to exactly zero marks the leg finished,
  raises that player's \<open>legsWon\<close> by one, leaves \<open>currentPlayerIndex\<close> as it was
  and returns \<open>{legFinished: true, winner}\<close> with the acting player as winner. No
  later call can finish the leg again: on the finished leg every \<open>addTurn\<close> (and
  \<open>removeLastTurn\<close>) changes nothing.
\<close>

theorem finishing_turn:
  assumes "currentLeg (setState w) = Some leg"
    and "\<not> leg_isFinished leg" and "\<not> set_isFinished (setState w)"
    and "at_index (players (setState w)) (currentPlayerIndex leg) = Some p"
    and "getRemainingScoreForPlayer leg (player_id p) - pts = 0"
  shows "\<exists>w' leg' won.
           addTurn w pts = Inr (w', \<lparr>legFinished = True, winner = Some won\<rparr>)
         \<and> won = p\<lparr>legsWon := legsWon p + 1\<rparr>
         \<and> players (setState w') = (players (setState w))[nat (currentPlayerIndex leg) := won]
         \<and> at_index (players (setState w')) (currentPlayerIndex leg) = Some won
         \<and> currentLeg (setState w') = Some leg'
         \<and> leg_isFinished leg'
         \<and> currentPlayerIndex leg' = currentPlayerIndex leg
         \<and> (\<forall>q. addTurn w' q = Inr (w', \<lparr>legFinished = False, winner = None\<rparr>))
         \<and> removeLastTurn w' = Inr w'"
proof -
  let ?s = "setState w"
  let ?i = "currentPlayerIndex leg"
  let ?won = "p\<lparr>legsWon := legsWon p + 1\<rparr>"
  let ?turn = "\<lparr>turn_id = nextTurnId w, playerId = player_id p, points = pts, runningScore = 0\<rparr>"
  let ?leg' = "leg\<lparr>turns := turns leg @ [?turn], leg_isFinished := True\<rparr>"
  let ?w' = "\<lparr>nextTurnId = nextTurnId w + 1,
              setState = updateSetWinner (?s\<lparr>players := (players ?s)[nat ?i := ?won],
                                             currentLeg := Some ?leg'\<rparr>)\<rparr>"
  have add: "addTurn w pts = Inr (?w', \<lparr>legFinished = True, winner = Some ?won\<rparr>)"
    using assms by (simp add: addTurn_def Let_def)
  have ps: "players (setState ?w') = (players ?s)[nat ?i := ?won]" by simp
  from assms(4) have rng: "0 \<le> ?i" "?i < int (length (players ?s))"
    by (simp_all add: at_index_Some)
  then have at: "at_index (players (setState ?w')) ?i = Some ?won"
    by (simp add: at_index_def)
  have l: "currentLeg (setState ?w') = Some ?leg'" by simp
  have f: "leg_isFinished ?leg'" by simp
  have noop: "\<forall>q. addTurn ?w' q = Inr (?w', \<lparr>legFinished = False, winner = None\<rparr>)"
    using addTurn_finished_leg [OF l f] by (simp add: no_turn_def)
  have rm: "removeLastTurn ?w' = Inr ?w'"
    by (rule removeLastTurn_finished_leg [OF l f])
  have i: "currentPlayerIndex ?leg' = ?i" by simp
  from add ps at l f i noop rm show ?thesis by blast
qed

theorem finishing_turn_witness:
  "currentLeg (setState world_before_checkout) = Some leg_before_checkout
   \<and> getRemainingScoreForPlayer leg_before_checkout 1 = 81
   \<and> addTurn world_before_checkout 81
       = Inr (world_leg_won,
              \<lparr>legFinished = True, winner = Some \<lparr>player_id = 1, name = str ''A'', legsWon = 1\<rparr>\<rparr>)
   \<and> addTurn world_leg_won 0 = Inr (world_leg_won, \<lparr>legFinished = False, winner = None\<rparr>)
   \<and> removeLastTurn world_leg_won = Inr world_leg_won"
proof -
  have l: "currentLeg (setState world_before_checkout) = Some leg_before_checkout"
    and nf: "\<not> leg_isFinished leg_before_checkout"
    and ns: "\<not> set_isFinished (setState world_before_checkout)"
    and p: "at_index (players (setState world_before_checkout)) (currentPlayerIndex leg_before_checkout)
              = Some \<lparr>player_id = 1, name = str ''A'', legsWon = 0\<rparr>"
    by (simp_all add: example_defs at_index_def)
  have r: "getRemainingScoreForPlayer leg_before_checkout 1 = 81"
    by (simp add: example_defs getRemainingScoreForPlayer_def)
  then have z: "getRemainingScoreForPlayer leg_before_checkout
                  (player_id \<lparr>player_id = 1, name = str ''A'', legsWon = 0\<rparr>) - 81 = 0"
    by simp
  have a: "addTurn world_before_checkout 81
       = Inr (world_leg_won,
              \<lparr>legFinished = True, winner = Some \<lparr>player_id = 1, name = str ''A'', legsWon = 1\<rparr>\<rparr>)"
    by (simp add: engine_defs example_defs)
  from finishing_turn [OF l nf ns p z] a l r show ?thesis by auto
qed

section \<open>C5: undo\<close>

text \<open>
  C5. Undo round trip: in a reachable world whose current leg is not finished, a turn that
  is accepted and does not finish the leg, followed by \<open>removeLastTurn\<close>, gives back
  the set state from before the turn: the same turn list, current player index, players
  and set fields.
\<close>

theorem undo_round_trip:
  assumes "reachable w" and "currentLeg (setState w) = Some leg"
    and "\<not> leg_isFinished leg" and "\<not> set_isFinished (setState w)"
    and "at_index (players (setState w)) (currentPlayerIndex leg) = Some p"
    and "getRemainingScoreForPlayer leg (player_id p) - pts > 0"
  shows "\<exists>w1 leg1 w2.
           addTurn w pts = Inr (w1, \<lparr>legFinished = False, winner = None\<rparr>)
         \<and> currentLeg (setState w1) = Some leg1
         \<and> length (turns leg1) = length (turns leg) + 1
         \<and> removeLastTurn w1 = Inr w2
         \<and> setState w2 = setState w"
proof -
  let ?s = "setState w"
  let ?after = "getRemainingScoreForPlayer leg (player_id p) - pts"
  let ?turn = "\<lparr>turn_id = nextTurnId w, playerId = player_id p, points = pts, runningScore = ?after\<rparr>"
  let ?leg1 = "leg\<lparr>turns := turns leg @ [?turn],
                   currentPlayerIndex := (currentPlayerIndex leg + 1) mod int (length (players ?s))\<rparr>"
  let ?w1 = "\<lparr>nextTurnId = nextTurnId w + 1, setState = ?s\<lparr>currentLeg := Some ?leg1\<rparr>\<rparr>"
  have add: "addTurn w pts = Inr (?w1, \<lparr>legFinished = False, winner = None\<rparr>)"
    using assms(2-6) by (simp add: addTurn_def Let_def no_turn_def)
  have iw: "inv w" by (rule reachable_inv [OF assms(1)])
  with assms(2) have ord: "order_ok ?s leg" by (simp add: inv_def wf_leg_def)
  have "inv ?w1" using inv_addTurn [OF iw add] .
  then have wf1: "wf_leg (setState ?w1) ?leg1" by (simp add: inv_def)
  have l1: "currentLeg (setState ?w1) = Some ?leg1" by simp
  have ne: "turns ?leg1 \<noteq> []" and nf: "\<not> leg_isFinished ?leg1" using assms(3) by simp_all
  note rm = removeLastTurn_wf [OF l1 wf1 ne nf]
  let ?idx = "if turns leg = [] then 0
              else (findIndex (\<lambda>p. player_id p = playerId (last (turns leg))) (players ?s) + 1)
                   mod int (length (players ?s))"
  have idx: "?idx = currentPlayerIndex leg" using ord assms(3) by (simp add: order_ok_def)
  let ?w2 = "\<lparr>nextTurnId = 1, setState = ?s\<rparr>"
  have rm': "removeLastTurn ?w1
               = Inr \<lparr>nextTurnId = 1,
                      setState = ?s\<lparr>currentLeg := Some (leg\<lparr>currentPlayerIndex := ?idx\<rparr>)\<rparr>\<rparr>"
    using rm by simp
  have "removeLastTurn ?w1
          = Inr \<lparr>nextTurnId = 1,
                 setState = ?s\<lparr>currentLeg := Some (leg\<lparr>currentPlayerIndex := currentPlayerIndex leg\<rparr>)\<rparr>\<rparr>"
    by (simp only: rm' idx)
  moreover have "leg\<lparr>currentPlayerIndex := currentPlayerIndex leg\<rparr> = leg" by simp
  moreover have "?s\<lparr>currentLeg := Some leg\<rparr> = ?s" using assms(2) by simp
  ultimately have "removeLastTurn ?w1 = Inr ?w2" by simp
  with add l1 show ?thesis by auto
qed

theorem undo_round_trip_witness:
  "reachable world_three_turns
   \<and> getRemainingScoreForPlayer leg_three_turns 2 - 50 = 391
   \<and> (\<exists>w1. addTurn world_three_turns 50 = Inr (w1, \<lparr>legFinished = False, winner = None\<rparr>)
          \<and> (\<exists>w2. removeLastTurn w1 = Inr w2 \<and> setState w2 = setState world_three_turns))"
proof -
  have l: "currentLeg (setState world_three_turns) = Some leg_three_turns"
    and nf: "\<not> leg_isFinished leg_three_turns"
    and ns: "\<not> set_isFinished (setState world_three_turns)"
    and p: "at_index (players (setState world_three_turns)) (currentPlayerIndex leg_three_turns)
              = Some \<lparr>player_id = 2, name = str ''B'', legsWon = 0\<rparr>"
    by (simp_all add: example_defs at_index_def)
  have r: "getRemainingScoreForPlayer leg_three_turns 2 - 50 = 391"
    by (simp add: example_defs getRemainingScoreForPlayer_def)
  then have pos: "getRemainingScoreForPlayer leg_three_turns
                    (player_id \<lparr>player_id = 2, name = str ''B'', legsWon = 0\<rparr>) - 50 > 0"
    by simp
  from undo_round_trip [OF reachable_three_turns l nf ns p pos] r reachable_three_turns
  show ?thesis by blast
qed

section \<open>C6: the set winner\<close>

lemma winner_loop_find:
  "winner_loop n ps s =
     (case find (\<lambda>p. legsWon p \<ge> n) ps of
        None \<Rightarrow> s
      | Some p \<Rightarrow> s\<lparr>set_isFinished := True, winnerPlayerId := Some (player_id p)\<rparr>)"
  by (induction ps) simp_all

text \<open>
  C6. \<open>updateSetWinner\<close> marks the set finished and records as winner the first
  player, in list order, whose \<open>legsWon\<close> is at least \<open>floor(maxLegs/2) + 1\<close>;
  when no player has that many legs it changes nothing.
\<close>

theorem updateSetWinner_first_qualifier:
  "updateSetWinner s =
     (case find (\<lambda>p. legsWon p \<ge> maxLegs s div 2 + 1) (players s) of
        None \<Rightarrow> s
      | Some p \<Rightarrow> s\<lparr>set_isFinished := True, winnerPlayerId := Some (player_id p)\<rparr>)"
  by (simp add: updateSetWinner_def winner_loop_find)

theorem updateSetWinner_first_qualifier_witness:
  "updateSetWinner
     \<lparr>players = [\<lparr>player_id = 1, name = str ''A'', legsWon = 2\<rparr>,
                 \<lparr>player_id = 2, name = str ''B'', legsWon = 3\<rparr>],
      gameType = G501, maxLegs = 5, currentLeg = None,
      set_isFinished = False, winnerPlayerId = None\<rparr>
   = \<lparr>players = [\<lparr>player_id = 1, name = str ''A'', legsWon = 2\<rparr>,
                 \<lparr>player_id = 2, name = str ''B'', legsWon = 3\<rparr>],
      gameType = G501, maxLegs = 5, currentLeg = None,
      set_isFinished = True, winnerPlayerId = Some 2\<rparr>
   \<and> updateSetWinner (setState world_leg_won) = setState world_leg_won"
  using updateSetWinner_first_qualifier
          [of "\<lparr>players = [\<lparr>player_id = 1, name = str ''A'', legsWon = 2\<rparr>,
                            \<lparr>player_id = 2, name = str ''B'', legsWon = 3\<rparr>],
                 gameType = G501, maxLegs = 5, currentLeg = None,
                 set_isFinished = False, winnerPlayerId = None\<rparr>"]
        updateSetWinner_first_qualifier [of "setState world_leg_won"]
  by (simp add: example_defs)

section \<open>C7: the next leg\<close>

lemma startNextLeg_needs_can: "\<not> canStartNextLeg (setState w) \<Longrightarrow> startNextLeg w = w"
  by (auto simp: canStartNextLeg_def startNextLeg_def Let_def split: option.splits if_splits)

text \<open>
  C7. \<open>startNextLeg\<close> changes nothing unless the current leg exists and is finished,
  the set is not finished and \<open>legNumber + 1 \<le> maxLegs\<close>; then it replaces the
  current leg by a fresh leg numbered one higher, with an empty turn list, the set's game
  type as starting score and current player index 0.
\<close>

theorem startNextLeg_spec:
  "startNextLeg w =
     (case currentLeg (setState w) of
        None \<Rightarrow> w
      | Some leg \<Rightarrow>
          if leg_isFinished leg \<and> \<not> set_isFinished (setState w)
             \<and> legNumber leg + 1 \<le> maxLegs (setState w)
          then \<lparr>nextTurnId = 1,
                setState = (setState w)\<lparr>currentLeg :=
                  Some \<lparr>legNumber = legNumber leg + 1, startingScore = gameType (setState w),
                        turns = [], leg_isFinished = False, currentPlayerIndex = 0\<rparr>\<rparr>\<rparr>
          else w)"
  by (auto simp: startNextLeg_def createNewLeg_def Let_def split: option.splits)

theorem startNextLeg_spec_witness:
  "startNextLeg world_leg_won =
     \<lparr>nextTurnId = 1,
      setState = \<lparr>players = [\<lparr>player_id = 1, name = str ''A'', legsWon = 1\<rparr>,
                             \<lparr>player_id = 2, name = str ''B'', legsWon = 0\<rparr>],
                  gameType = G501, maxLegs = 5,
                  currentLeg = Some \<lparr>legNumber = 2, startingScore = G501, turns = [],
                                     leg_isFinished = False, currentPlayerIndex = 0\<rparr>,
                  set_isFinished = False, winnerPlayerId = None\<rparr>\<rparr>
   \<and> startNextLeg world_three_turns = world_three_turns
   \<and> startNextLeg \<lparr>nextTurnId = 1, setState = createEmptySet\<rparr>
       = \<lparr>nextTurnId = 1, setState = createEmptySet\<rparr>"
  using startNextLeg_spec [of world_leg_won] startNextLeg_spec [of world_three_turns]
        startNextLeg_spec [of "\<lparr>nextTurnId = 1, setState = createEmptySet\<rparr>"]
  by (simp add: example_defs createEmptySet_def)

section \<open>C8: a new set\<close>

text \<open>
  What \<open>trim\<close> computes: it removes a white-space prefix and suffix, the rest neither
  starts nor ends with white space, and the result is empty exactly for an input of white
  space only.
\<close>

lemma list_all_takeWhile: "list_all P (takeWhile P xs)"
  by (induction xs) simp_all

lemma dropWhile_Nil_list_all: "dropWhile P xs = [] \<longleftrightarrow> list_all P xs"
  by (induction xs) simp_all

lemma dropWhile_rev_dropWhile_Nil:
  "dropWhile P (rev (dropWhile P xs)) = [] \<longleftrightarrow> dropWhile P xs = []"
proof
  assume a: "dropWhile P (rev (dropWhile P xs)) = []"
  show "dropWhile P xs = []"
  proof (rule ccontr)
    assume n: "dropWhile P xs \<noteq> []"
    then have "\<not> P (hd (dropWhile P xs))" by (rule hd_dropWhile)
    moreover from n have "hd (dropWhile P xs) \<in> set (rev (dropWhile P xs))"
      by (simp del: dropWhile_eq_Nil_conv)
    moreover from a have "list_all P (rev (dropWhile P xs))"
      by (simp only: dropWhile_Nil_list_all)
    ultimately show False by (simp only: list_all_iff) blast
  qed
next
  assume "dropWhile P xs = []"
  then show "dropWhile P (rev (dropWhile P xs)) = []" by (simp only: rev.simps dropWhile.simps)
qed

lemma trim_Nil_iff: "trim s = [] \<longleftrightarrow> list_all isWhiteSpace s"
proof -
  have "trim s = [] \<longleftrightarrow> dropWhile isWhiteSpace (rev (dropWhile isWhiteSpace s)) = []"
    by (simp only: trim_def rev_is_Nil_conv)
  also have "\<dots> \<longleftrightarrow> dropWhile isWhiteSpace s = []"
    by (rule dropWhile_rev_dropWhile_Nil)
  also have "\<dots> \<longleftrightarrow> list_all isWhiteSpace s"
    by (rule dropWhile_Nil_list_all)
  finally show ?thesis .
qed

lemma trim_decomp:
  "\<exists>pre post. s = pre @ trim s @ post \<and> list_all isWhiteSpace pre \<and> list_all isWhiteSpace post"
proof -
  let ?d = "dropWhile isWhiteSpace s"
  let ?post = "rev (takeWhile isWhiteSpace (rev ?d))"
  have "trim s @ ?post = rev (takeWhile isWhiteSpace (rev ?d) @ dropWhile isWhiteSpace (rev ?d))"
    unfolding trim_def by (rule rev_append [symmetric])
  also have "\<dots> = ?d" by (simp only: takeWhile_dropWhile_id rev_rev_ident)
  finally have d: "?d = trim s @ ?post" by (rule sym)
  have "s = takeWhile isWhiteSpace s @ ?d" by (rule takeWhile_dropWhile_id [symmetric])
  with d have "s = takeWhile isWhiteSpace s @ trim s @ ?post"
    by (simp only: d [symmetric] takeWhile_dropWhile_id)
  moreover have "list_all isWhiteSpace (takeWhile isWhiteSpace s)"
    by (rule list_all_takeWhile)
  moreover have "list_all isWhiteSpace ?post"
    unfolding list_all_rev by (rule list_all_takeWhile)
  ultimately show ?thesis by blast
qed

lemma trim_ends:
  assumes "trim s \<noteq> []"
  shows "\<not> isWhiteSpace (hd (trim s)) \<and> \<not> isWhiteSpace (last (trim s))"
proof -
  let ?d = "dropWhile isWhiteSpace s"
  let ?e = "dropWhile isWhiteSpace (rev ?d)"
  have t: "trim s = rev ?e" by (simp only: trim_def)
  from assms have e: "?e \<noteq> []" by (simp only: t rev_is_Nil_conv not_False_eq_True)
  then have d: "?d \<noteq> []" by (simp only: dropWhile_rev_dropWhile_Nil not_False_eq_True)
  have nd: "\<not> isWhiteSpace (hd ?d)" using d by (rule hd_dropWhile)
  have ne: "\<not> isWhiteSpace (hd ?e)" using e by (rule hd_dropWhile)
  have "hd ?d \<in> set ?d" using d by (rule hd_in_set)
  then have "hd ?d \<in> set (rev ?d)" by (simp only: set_rev)
  then have "last ?e = last (rev ?d)" using nd by (rule dropWhile_last)
  also have "\<dots> = hd ?d" by (rule last_rev)
  finally have l: "last ?e = hd ?d" .
  have "hd (trim s) = last ?e" unfolding t by (rule hd_rev)
  moreover have "last (trim s) = hd ?e" unfolding t by (rule last_rev)
  ultimately show ?thesis using nd ne l by simp
qed

text \<open>
  C8. \<open>startNewSet\<close> returns a set with exactly two players, with ids 1 and 2,
  \<open>legsWon\<close> 0 and the trimmed inputs as names, where an empty or white-space-only
  input gives "Player 1" for the first and "Player 2" for the second; the current leg is
  leg 1 with the game type as starting score, no turns and current player index 0, and
  the set is not finished and has no winner.
\<close>

theorem startNewSet_spec:
  "startNewSet n1 n2 gt ml =
     \<lparr>nextTurnId = 1,
      setState =
        \<lparr>players =
           [\<lparr>player_id = 1,
             name = (if list_all isWhiteSpace n1 then str ''Player 1'' else trim n1),
             legsWon = 0\<rparr>,
            \<lparr>player_id = 2,
             name = (if list_all isWhiteSpace n2 then str ''Player 2'' else trim n2),
             legsWon = 0\<rparr>],
         gameType = gt, maxLegs = ml,
         currentLeg = Some \<lparr>legNumber = 1, startingScore = gt, turns = [],
                            leg_isFinished = False, currentPlayerIndex = 0\<rparr>,
         set_isFinished = False, winnerPlayerId = None\<rparr>\<rparr>"
  by (simp add: startNewSet_def createNewLeg_def or_else_def trim_Nil_iff Let_def)

theorem startNewSet_spec_witness:
  "startNewSet [] (str ''  Bob  '') G301 3 =
     \<lparr>nextTurnId = 1,
      setState =
        \<lparr>players = [\<lparr>player_id = 1, name = str ''Player 1'', legsWon = 0\<rparr>,
                    \<lparr>player_id = 2, name = str ''Bob'', legsWon = 0\<rparr>],
         gameType = G301, maxLegs = 3,
         currentLeg = Some \<lparr>legNumber = 1, startingScore = G301, turns = [],
                            leg_isFinished = False, currentPlayerIndex = 0\<rparr>,
         set_isFinished = False, winnerPlayerId = None\<rparr>\<rparr>"
  using startNewSet_spec [of "[]" "str ''  Bob  ''" G301 3]
  by (simp add: str_def trim_def isWhiteSpace_def)

section \<open>C9: turn order\<close>

text \<open>
  C9. Turn-order invariant: in every reachable world, the current player index of the
  current leg is 0 when the leg has no turns; otherwise it is the index of the last
  turn's thrower plus one, modulo the number of players, except in a finished leg, where
  it is the index of the last turn's thrower.
\<close>

theorem turn_order_invariant:
  assumes "reachable w" and "currentLeg (setState w) = Some leg"
  shows "if turns leg = [] then currentPlayerIndex leg = 0
         else if leg_isFinished leg
           then currentPlayerIndex leg
                  = findIndex (\<lambda>p. player_id p = playerId (last (turns leg))) (players (setState w))
           else currentPlayerIndex leg
                  = (findIndex (\<lambda>p. player_id p = playerId (last (turns leg))) (players (setState w)) + 1)
                    mod int (length (players (setState w)))"
proof -
  from assms have "wf_leg (setState w) leg"
    using reachable_inv [of w] by (simp add: inv_def)
  then have "order_ok (setState w) leg" by (simp add: wf_leg_def)
  then show ?thesis by (simp add: order_ok_def)
qed

theorem turn_order_invariant_witness:
  "reachable world_three_turns \<and> currentLeg (setState world_three_turns) = Some leg_three_turns
   \<and> currentPlayerIndex leg_three_turns = 1
   \<and> findIndex (\<lambda>p. player_id p = playerId (last (turns leg_three_turns)))
        (players (setState world_three_turns)) = 0
   \<and> reachable world_leg_won \<and> currentLeg (setState world_leg_won) = Some leg_won
   \<and> leg_isFinished leg_won
   \<and> currentPlayerIndex leg_won
       = findIndex (\<lambda>p. player_id p = playerId (last (turns leg_won))) (players (setState world_leg_won))"
proof -
  have l3: "currentLeg (setState world_three_turns) = Some leg_three_turns"
    and lw: "currentLeg (setState world_leg_won) = Some leg_won"
    by (simp_all add: example_defs)
  have f: "leg_isFinished leg_won" "turns leg_won \<noteq> []" by (simp_all add: example_defs)
  from turn_order_invariant [OF reachable_leg_won lw] f
  have "currentPlayerIndex leg_won
       = findIndex (\<lambda>p. player_id p = playerId (last (turns leg_won))) (players (setState world_leg_won))"
    by simp
  moreover have "currentPlayerIndex leg_three_turns = 1"
    "findIndex (\<lambda>p. player_id p = playerId (last (turns leg_three_turns)))
        (players (setState world_three_turns)) = 0"
    by (simp_all add: example_defs)
  ultimately show ?thesis
    using reachable_three_turns reachable_leg_won l3 lw f by simp
qed

section \<open>C10: the current player's name\<close>

text \<open>
  C10. \<open>getCurrentPlayerName\<close> never throws: it returns the placeholder when there
  is no current leg or when \<open>currentPlayerIndex\<close> is not an index of the player list
  (as for the set of \<open>createEmptySet\<close>), and the name of the player at that index
  otherwise.
\<close>

theorem getCurrentPlayerName_total:
  "getCurrentPlayerName s =
     Inr (case currentLeg s of
            None \<Rightarrow> placeholder
          | Some leg \<Rightarrow>
              if 0 \<le> currentPlayerIndex leg \<and> currentPlayerIndex leg < int (length (players s))
              then name (players s ! nat (currentPlayerIndex leg))
              else placeholder)
   \<and> getCurrentPlayerName createEmptySet = Inr placeholder"
  by (auto simp: getCurrentPlayerName_def at_index_def truthy_def read_name_def Let_def
        createEmptySet_def split: option.splits)

theorem getCurrentPlayerName_total_witness:
  "getCurrentPlayerName (setState world_three_turns) = Inr (str ''B'')
   \<and> getCurrentPlayerName
       ((setState world_three_turns)\<lparr>players := []\<rparr>) = Inr placeholder
   \<and> getCurrentPlayerName
       ((setState world_three_turns)\<lparr>currentLeg := Some (leg_three_turns\<lparr>currentPlayerIndex := -1\<rparr>)\<rparr>)
       = Inr placeholder"
  using getCurrentPlayerName_total [of "setState world_three_turns"]
        getCurrentPlayerName_total [of "(setState world_three_turns)\<lparr>players := []\<rparr>"]
        getCurrentPlayerName_total
          [of "(setState world_three_turns)\<lparr>currentLeg := Some (leg_three_turns\<lparr>currentPlayerIndex := -1\<rparr>)\<rparr>"]
  by (simp add: example_defs)

end
